theory Spec2Isabelle
  imports Main "HOL-Library.Char_ord" "HOL-Library.List_Lexorder" "HOL-Library.AList"
begin

section \<open>Strings of the program\<close>

text \<open>
  A Python \<open>str\<close> is modelled as a \<open>string\<close> whose characters stand for the code points
  0 to 255 (ASCII and the Latin-1 block); file names with code points beyond that range are
  outside the model. Python compares strings lexicographically by code point, which is the
  order of \<open>HOL-Library.List_Lexorder\<close> over \<open>HOL-Library.Char_ord\<close>.
\<close>

text \<open>The regular expression class \<open>\d\<close>: the decimal digits; below 256 these are 0 to 9.\<close>

definition re_digit :: "char \<Rightarrow> bool" where
  "re_digit c = (CHR ''0'' \<le> c \<and> c \<le> CHR ''9'')"

text \<open>
  \<open>str.isdigit\<close> also accepts the characters of numeric type Digit that are not decimal:
  below 256 the superscripts two, three and one (code points 178, 179, 185).
\<close>

definition isdigit_char :: "char \<Rightarrow> bool" where
  "isdigit_char c = (re_digit c \<or> c = CHR 0xB2 \<or> c = CHR 0xB3 \<or> c = CHR 0xB9)"

definition isdigit :: "string \<Rightarrow> bool" where
  "isdigit s = (s \<noteq> [] \<and> list_all isdigit_char s)"

text \<open>
  \<open>str.lower\<close> below 256: the ASCII capitals and the Latin-1 capitals (192 to 222 without
  the multiplication sign 215) move up by 32; every other character stays.
\<close>

definition lower_char :: "char \<Rightarrow> char" where
  "lower_char c =
     (if (CHR ''A'' \<le> c \<and> c \<le> CHR ''Z'') \<or> (CHR 0xC0 \<le> c \<and> c \<le> CHR 0xDE \<and> c \<noteq> CHR 0xD7)
      then char_of (of_char c + (32::nat)) else c)"

definition lower :: "string \<Rightarrow> string" where
  "lower s = map lower_char s"

text \<open>
  \<open>int(text)\<close> on the texts that reach it in \<open>natural_sort_key\<close>, those for which
  \<open>isdigit\<close> holds: the value of a run of decimal digits, and \<open>ValueError\<close> (\<open>None\<close>)
  when a character is a superscript digit.
\<close>

definition digit_val :: "char \<Rightarrow> nat" where
  "digit_val c = of_char c - 48"

definition py_int :: "string \<Rightarrow> nat option" where
  "py_int s = (if s \<noteq> [] \<and> list_all re_digit s
               then Some (foldl (\<lambda>a c. 10 * a + digit_val c) 0 s) else None)"

section \<open>NaturalSort\<close>

text \<open>
  \<open>re.split(r'(\d+)', name)\<close>: the text before the first digit run, the digit run, the text
  after it, and so on; the list always starts and ends with a (possibly empty) text.
\<close>

function re_split :: "string \<Rightarrow> string list" where
  "re_split s =
     (if dropWhile (\<lambda>c. \<not> re_digit c) s = [] then [s]
      else takeWhile (\<lambda>c. \<not> re_digit c) s
           # takeWhile re_digit (dropWhile (\<lambda>c. \<not> re_digit c) s)
           # re_split (dropWhile re_digit (dropWhile (\<lambda>c. \<not> re_digit c) s)))"
  by pat_completeness auto
termination
proof (relation "measure length", simp)
  fix s :: string
  assume ne: "dropWhile (\<lambda>c. \<not> re_digit c) s \<noteq> []"
  let ?r = "dropWhile (\<lambda>c. \<not> re_digit c) s"
  from ne have "re_digit (hd ?r)"
    using hd_dropWhile [of "\<lambda>c. \<not> re_digit c" s] by simp
  with ne have "length (dropWhile re_digit ?r) < length ?r"
    by (cases ?r) (auto simp: less_Suc_eq_le length_dropWhile_le)
  also have "length ?r \<le> length s"
    by (rule length_dropWhile_le)
  finally show "(dropWhile re_digit ?r, s) \<in> measure length"
    by simp
qed

declare re_split.simps [simp del]

text \<open>An element of the key list: a Python \<open>str\<close> or a Python \<open>int\<close>.\<close>

datatype key_part = KStr string | KInt nat

text \<open>
  One element of the comprehension \<open>int(text) if text.isdigit() else text.lower()\<close>;
  \<open>None\<close> is the \<open>ValueError\<close> of \<open>int\<close>.
\<close>

definition key_part_of :: "string \<Rightarrow> key_part option" where
  "key_part_of text =
     (if isdigit text then map_option KInt (py_int text) else Some (KStr (lower text)))"

text \<open>
  \<open>natural_sort_key\<close>, applied to \<open>path.name\<close>. An exception in the comprehension is caught
  and the key becomes the one-element list of the lower-cased name.
\<close>

definition natural_sort_key :: "string \<Rightarrow> key_part list" where
  "natural_sort_key name =
     (case those (map key_part_of (re_split name)) of
        Some k \<Rightarrow> k
      | None \<Rightarrow> [KStr (lower name)])"

text \<open>Whether the \<open>except\<close> branch of \<open>natural_sort_key\<close> is taken.\<close>

definition fallback_taken :: "string \<Rightarrow> bool" where
  "fallback_taken name = (those (map key_part_of (re_split name)) = None)"

text \<open>
  Python's \<open><\<close> on two key elements: defined between two \<open>str\<close> and between two \<open>int\<close>;
  between a \<open>str\<close> and an \<open>int\<close> it raises \<open>TypeError\<close> (\<open>None\<close>).
\<close>

fun part_lt :: "key_part \<Rightarrow> key_part \<Rightarrow> bool option" where
  "part_lt (KStr a) (KStr b) = Some (a < b)"
| "part_lt (KInt a) (KInt b) = Some (a < b)"
| "part_lt (KStr a) (KInt b) = None"
| "part_lt (KInt a) (KStr b) = None"

text \<open>
  Python's \<open><\<close> on two lists: the first position where the elements are not equal decides,
  by \<open><\<close> on these two elements; when one list is a prefix of the other, the shorter is
  smaller.
\<close>

fun key_lt :: "key_part list \<Rightarrow> key_part list \<Rightarrow> bool option" where
  "key_lt [] [] = Some False"
| "key_lt [] (y # ys) = Some True"
| "key_lt (x # xs) [] = Some False"
| "key_lt (x # xs) (y # ys) = (if x = y then key_lt xs ys else part_lt x y)"

text \<open>
  \<open>sorted(xs, key=k)\<close>: a stable sort that only asks \<open>key(b) < key(a)\<close>. It is modelled as
  the stable insertion sort; a comparison that raises makes the whole call raise (\<open>None\<close>).
\<close>

fun insert_sorted :: "('a \<Rightarrow> key_part list) \<Rightarrow> 'a \<Rightarrow> 'a list \<Rightarrow> 'a list option" where
  "insert_sorted k x [] = Some [x]"
| "insert_sorted k x (y # ys) =
     (case key_lt (k y) (k x) of
        None \<Rightarrow> None
      | Some True \<Rightarrow> map_option (\<lambda>r. y # r) (insert_sorted k x ys)
      | Some False \<Rightarrow> Some (x # y # ys))"

fun py_sorted :: "('a \<Rightarrow> key_part list) \<Rightarrow> 'a list \<Rightarrow> 'a list option" where
  "py_sorted k [] = Some []"
| "py_sorted k (x # xs) =
     (case py_sorted k xs of None \<Rightarrow> None | Some r \<Rightarrow> insert_sorted k x r)"


text \<open>
  The shape of the list \<open>re.split\<close> returns: at the positions of texts (flag \<open>False\<close>) no
  character is a decimal digit, at the positions of digit runs (flag \<open>True\<close>) the element is
  a non-empty run of decimal digits; the two alternate.
\<close>

fun runs_ok :: "bool \<Rightarrow> string list \<Rightarrow> bool" where
  "runs_ok b [] = True"
| "runs_ok b (t # ts) =
     ((if b then t \<noteq> [] \<and> list_all re_digit t else list_all (\<lambda>c. \<not> re_digit c) t)
      \<and> runs_ok (\<not> b) ts)"

text \<open>
  The shape of a key: \<open>typed False k\<close> says that \<open>k\<close> holds a \<open>str\<close> at every even index and
  an \<open>int\<close> at every odd index.
\<close>

fun typed :: "bool \<Rightarrow> key_part list \<Rightarrow> bool" where
  "typed b [] = True"
| "typed b (KStr s # ps) = (\<not> b \<and> typed (\<not> b) ps)"
| "typed b (KInt n # ps) = (b \<and> typed (\<not> b) ps)"

text \<open>
  The key element the specification describes for the run at index \<open>i\<close> of the split:
  a digit run (odd index) counts as its integer value, a text (even index) as its
  lower-cased form.
\<close>

definition key_part_at :: "nat \<Rightarrow> string \<Rightarrow> key_part" where
  "key_part_at i t =
     (if odd i then KInt (foldl (\<lambda>a c. 10 * a + digit_val c) 0 t) else KStr (lower t))"

section \<open>Number formatting\<close>

definition digit_char :: "nat \<Rightarrow> char" where
  "digit_char d = char_of (48 + d)"

fun dec :: "nat \<Rightarrow> string" where
  "dec n = (if n < 10 then [digit_char n] else dec (n div 10) @ [digit_char (n mod 10)])"

declare dec.simps [simp del]

definition zfill :: "nat \<Rightarrow> string \<Rightarrow> string" where
  "zfill w s = replicate (w - length s) (CHR ''0'') @ s"

definition fmt04 :: "int \<Rightarrow> string" where
  "fmt04 n = (if n < 0 then CHR ''-'' # zfill 3 (dec (nat (- n))) else zfill 4 (dec (nat n)))"

section \<open>Paths\<close>

text \<open>A path is the list of its names below the working directory.\<close>

type_synonym path = "string list"

definition path_name :: "path \<Rightarrow> string" where
  "path_name p = (if p = [] then [] else last p)"

definition parent :: "path \<Rightarrow> path" where
  "parent p = butlast p"

definition rfind_dot :: "string \<Rightarrow> nat option" where
  "rfind_dot s = (if CHR ''.'' \<in> set s
                  then Some (length s - 1 - length (takeWhile (\<lambda>c. c \<noteq> CHR ''.'') (rev s)))
                  else None)"

definition suffix :: "string \<Rightarrow> string" where
  "suffix nm = (case rfind_dot nm of
                  None \<Rightarrow> []
                | Some i \<Rightarrow> if 0 < i \<and> i < length nm - 1 then drop i nm else [])"

definition stem :: "string \<Rightarrow> string" where
  "stem nm = (case rfind_dot nm of
                None \<Rightarrow> nm
              | Some i \<Rightarrow> if 0 < i \<and> i < length nm - 1 then take i nm else nm)"

definition with_suffix :: "path \<Rightarrow> string \<Rightarrow> path" where
  "with_suffix p s = parent p @ [stem (path_name p) @ s]"

definition endswith :: "string \<Rightarrow> string \<Rightarrow> bool" where
  "endswith s e = (length e \<le> length s \<and> drop (length s - length e) s = e)"


section \<open>The state of a run\<close>

text \<open>
  The working directory tree is an association list from paths (lists of names, relative
  to the working directory; \<open>[]\<close> is the working directory itself) to nodes. The order
  of the list is the order in which the operating system lists entries, which the program
  does not control. The file system has POSIX semantics: names are case-sensitive and a
  rename onto an existing file replaces it.
\<close>

datatype content = Data string | Archive "(string \<times> content) list"

datatype node = Dir | File content

type_synonym filesystem = "(path \<times> node) list"

text \<open>An entry of \<open>BackupManager.operation_log\<close>; the wall-clock time stamp is left out.\<close>

datatype op_kind = OpRename | OpMove | OpDelete | OpCreate

record op_record =
  operation :: op_kind
  source :: path
  target :: "path option"

text \<open>The operations on the file system, as the environment can refuse them.\<close>

datatype fs_op =
    FsRename path path
  | FsMove path path
  | FsCopy path path
  | FsUnlink path
  | FsRmdir path
  | FsRmtree path
  | FsMkdir path
  | FsZipOpen path
  | FsZipWrite path path
  | FsZipRead path
  | FsSaveConfig

text \<open>
  The chronicle of a run: every change of the file system that was carried out and every
  entry appended to the journal, in the order in which they happened.
\<close>

datatype event = Mutated fs_op | Journaled op_record

datatype exc = OSError | ShutilError | TypeError | EOFError | VerifyError

datatype level = INFO | WARNING | ERROR

type_synonym log_entry = "level \<times> string \<times> path list"

text \<open>The options of \<open>DEFAULT_CONFIG\<close> that the modelled code reads.\<close>

record config =
  start_num :: int
  skip_dirs :: "string list"
  interactive_mode :: bool
  skip_step_confirmations :: bool
  dry_run :: bool

text \<open>
  \<open>fs\<close> is the tree, \<open>config\<close> the dictionary of \<open>ConfigManager\<close>, \<open>config_file\<close> what
  \<open>save_config\<close> last wrote, \<open>operation_log\<close> the journal of \<open>BackupManager\<close>, \<open>log\<close> the log
  file, \<open>history\<close> the chronicle, \<open>stdin\<close> the lines \<open>input()\<close> will read. \<open>temp_names\<close>
  are the names \<open>tempfile\<close> will try, \<open>uuid_source\<close> and \<open>uuid_count\<close> give the values of
  \<open>uuid.uuid4().hex[:8]\<close>, and \<open>faults\<close> says which operations the environment refuses
  (an \<open>OSError\<close>).
\<close>

record world =
  fs :: filesystem
  config :: config
  config_file :: "config option"
  operation_log :: "op_record list"
  log :: "log_entry list"
  history :: "event list"
  stdin :: "string list"
  temp_names :: "string list"
  uuid_source :: "nat \<Rightarrow> string"
  uuid_count :: nat
  faults :: "fs_op \<Rightarrow> bool"

definition logger :: "level \<Rightarrow> string \<Rightarrow> path list \<Rightarrow> world \<Rightarrow> world" where
  "logger l m ps w = w\<lparr>log := log w @ [(l, m, ps)]\<rparr>"

definition mutate :: "fs_op \<Rightarrow> filesystem \<Rightarrow> world \<Rightarrow> world" where
  "mutate act t w = w\<lparr>fs := t, history := history w @ [Mutated act]\<rparr>"

subsection \<open>Reading the tree\<close>

definition lookup :: "filesystem \<Rightarrow> path \<Rightarrow> node option" where
  "lookup t p = (if p = [] then Some Dir else map_of t p)"

definition path_exists :: "filesystem \<Rightarrow> path \<Rightarrow> bool" where
  "path_exists t p = (lookup t p \<noteq> None)"

definition is_dir :: "filesystem \<Rightarrow> path \<Rightarrow> bool" where
  "is_dir t p = (lookup t p = Some Dir)"

definition is_file :: "filesystem \<Rightarrow> path \<Rightarrow> bool" where
  "is_file t p = (case lookup t p of Some (File c) \<Rightarrow> True | _ \<Rightarrow> False)"

definition iterdir :: "filesystem \<Rightarrow> path \<Rightarrow> path list" where
  "iterdir t d = [p \<leftarrow> map fst t. p \<noteq> [] \<and> butlast p = d]"

text \<open>\<open>below d p\<close>: the path \<open>p\<close> is \<open>d\<close> or lies under \<open>d\<close>.\<close>

definition below :: "path \<Rightarrow> path \<Rightarrow> bool" where
  "below d p = (take (length d) p = d)"

text \<open>\<open>Path.rglob('*')\<close>: everything under \<open>d\<close>.\<close>

definition rglob :: "filesystem \<Rightarrow> path \<Rightarrow> path list" where
  "rglob t d = [p \<leftarrow> map fst t. below d p \<and> p \<noteq> d]"

text \<open>\<open>Path.glob('*.jpg')\<close>: the entries of \<open>d\<close> whose name ends in \<open>.jpg\<close>.\<close>

definition glob_jpg :: "filesystem \<Rightarrow> path \<Rightarrow> path list" where
  "glob_jpg t d = [p \<leftarrow> iterdir t d. endswith (path_name p) ''.jpg'']"

definition glob_zip :: "filesystem \<Rightarrow> path \<Rightarrow> path list" where
  "glob_zip t d = [p \<leftarrow> iterdir t d. endswith (path_name p) ''.zip'']"

text \<open>\<open>sorted(paths, key=natural_sort_key)\<close>; \<open>TypeError\<close> when two keys do not compare.\<close>

definition sorted_paths :: "path list \<Rightarrow> exc + path list" where
  "sorted_paths ps = (case py_sorted (\<lambda>p. natural_sort_key (path_name p)) ps of
                        None \<Rightarrow> Inl TypeError | Some r \<Rightarrow> Inr r)"

subsection \<open>Changing the tree\<close>

text \<open>Moving the node at \<open>src\<close>, with all that lies under it, to \<open>dst\<close>.\<close>

definition relocate :: "path \<Rightarrow> path \<Rightarrow> filesystem \<Rightarrow> filesystem" where
  "relocate src dst t =
     map (\<lambda>(q, n). if below src q then (dst @ drop (length src) q, n) else (q, n))
       (AList.delete dst t)"

text \<open>
  An operation is refused by the environment (\<open>OSError\<close>), or fails for the state of the
  tree, or is carried out and entered in the chronicle.
\<close>

definition perform :: "fs_op \<Rightarrow> (filesystem \<Rightarrow> exc + filesystem) \<Rightarrow> world \<Rightarrow> exc + world" where
  "perform act f w =
     (if faults w act then Inl OSError
      else case f (fs w) of Inl e \<Rightarrow> Inl e | Inr t \<Rightarrow> Inr (mutate act t w))"

text \<open>
  \<open>os.rename\<close> (\<open>Path.rename\<close>): the source must exist, the parent of the target must be a
  directory, a directory cannot move under itself; an existing target is replaced when
  both are files or when it is an empty directory and the source a directory.
\<close>

definition rename_fs :: "path \<Rightarrow> path \<Rightarrow> filesystem \<Rightarrow> exc + filesystem" where
  "rename_fs src dst t =
     (case lookup t src of
        None \<Rightarrow> Inl OSError
      | Some n \<Rightarrow>
          if src = [] \<or> dst = [] \<or> \<not> is_dir t (parent dst) then Inl OSError
          else if src = dst then Inr t
          else if below src dst then Inl OSError
          else (case lookup t dst of
              None \<Rightarrow> Inr (relocate src dst t)
            | Some Dir \<Rightarrow>
                if n = Dir \<and> iterdir t dst = [] then Inr (relocate src dst t) else Inl OSError
            | Some (File c) \<Rightarrow>
                if n = Dir then Inl OSError else Inr (relocate src dst t)))"

definition os_rename :: "path \<Rightarrow> path \<Rightarrow> world \<Rightarrow> exc + world" where
  "os_rename src dst = perform (FsRename src dst) (rename_fs src dst)"

text \<open>
  \<open>shutil.move\<close>: into the directory \<open>dst\<close> when \<open>dst\<close> is one (an entry of that name must
  not exist there), else as \<open>os.rename\<close>. Its fallback of copying and deleting when the
  rename is refused has the effect of the rename and is part of the same operation.
\<close>

definition move_fs :: "path \<Rightarrow> path \<Rightarrow> filesystem \<Rightarrow> exc + filesystem" where
  "move_fs src dst t =
     (if src \<noteq> [] \<and> dst \<noteq> src \<and> is_dir t dst
      then (if path_exists t (dst @ [path_name src]) then Inl ShutilError
            else rename_fs src (dst @ [path_name src]) t)
      else rename_fs src dst t)"

definition shutil_move :: "path \<Rightarrow> path \<Rightarrow> world \<Rightarrow> exc + world" where
  "shutil_move src dst = perform (FsMove src dst) (move_fs src dst)"

text \<open>
  \<open>shutil.copy2\<close>: the source must be a file; the copy goes into \<open>dst\<close> when that is a
  directory; an existing file is overwritten.
\<close>

definition copy_fs :: "path \<Rightarrow> path \<Rightarrow> filesystem \<Rightarrow> exc + filesystem" where
  "copy_fs src dst t =
     (case lookup t src of
        Some (File c) \<Rightarrow>
          (let real_dst = (if is_dir t dst then dst @ [path_name src] else dst) in
           if real_dst = src \<or> is_dir t real_dst \<or> \<not> is_dir t (parent real_dst)
           then Inl OSError
           else Inr (AList.update real_dst (File c) t))
      | _ \<Rightarrow> Inl OSError)"

definition shutil_copy2 :: "path \<Rightarrow> path \<Rightarrow> world \<Rightarrow> exc + world" where
  "shutil_copy2 src dst = perform (FsCopy src dst) (copy_fs src dst)"

text \<open>\<open>Path.unlink\<close>: removes a file.\<close>

definition unlink_fs :: "path \<Rightarrow> filesystem \<Rightarrow> exc + filesystem" where
  "unlink_fs p t = (if is_file t p then Inr (AList.delete p t) else Inl OSError)"

definition os_unlink :: "path \<Rightarrow> world \<Rightarrow> exc + world" where
  "os_unlink p = perform (FsUnlink p) (unlink_fs p)"

text \<open>\<open>Path.rmdir\<close>: removes an empty directory.\<close>

definition rmdir_fs :: "path \<Rightarrow> filesystem \<Rightarrow> exc + filesystem" where
  "rmdir_fs p t =
     (if p \<noteq> [] \<and> is_dir t p \<and> iterdir t p = [] then Inr (AList.delete p t) else Inl OSError)"

definition os_rmdir :: "path \<Rightarrow> world \<Rightarrow> exc + world" where
  "os_rmdir p = perform (FsRmdir p) (rmdir_fs p)"

text \<open>\<open>shutil.rmtree\<close>: removes a directory with all that lies under it.\<close>

definition rmtree_fs :: "path \<Rightarrow> filesystem \<Rightarrow> exc + filesystem" where
  "rmtree_fs p t =
     (if p \<noteq> [] \<and> is_dir t p then Inr [(q, n) \<leftarrow> t. \<not> below p q] else Inl OSError)"

definition shutil_rmtree :: "path \<Rightarrow> world \<Rightarrow> exc + world" where
  "shutil_rmtree p = perform (FsRmtree p) (rmtree_fs p)"

text \<open>
  \<open>Path.mkdir(parents=True, exist_ok=True)\<close>: creates the directory and its missing
  ancestors; fails when one of them is a file.
\<close>

fun mkdir_chain :: "path list \<Rightarrow> filesystem \<Rightarrow> exc + filesystem" where
  "mkdir_chain [] t = Inr t"
| "mkdir_chain (p # ps) t =
     (case lookup t p of
        None \<Rightarrow> mkdir_chain ps (AList.update p Dir t)
      | Some Dir \<Rightarrow> mkdir_chain ps t
      | Some (File c) \<Rightarrow> Inl OSError)"

definition mkdir_fs :: "path \<Rightarrow> filesystem \<Rightarrow> exc + filesystem" where
  "mkdir_fs p t = mkdir_chain (map (\<lambda>k. take k p) [1..<Suc (length p)]) t"

definition mkdir_parents :: "path \<Rightarrow> world \<Rightarrow> exc + world" where
  "mkdir_parents p = perform (FsMkdir p) (mkdir_fs p)"

text \<open>
  \<open>tempfile.TemporaryDirectory(dir=d)\<close>: on entry a directory with the first candidate
  name that does not exist yet is created under \<open>d\<close>; \<open>FileExistsError\<close> when the
  candidates run out. On exit the directory is removed with its contents.
\<close>

definition mkdtemp :: "path \<Rightarrow> world \<Rightarrow> exc + (path \<times> world)" where
  "mkdtemp d w =
     (case dropWhile (\<lambda>n. path_exists (fs w) (d @ [n])) (temp_names w) of
        [] \<Rightarrow> Inl OSError
      | n # rest \<Rightarrow>
          (case perform (FsMkdir (d @ [n]))
                  (\<lambda>t. if is_dir t d then Inr (AList.update (d @ [n]) Dir t) else Inl OSError)
                  (w\<lparr>temp_names := rest\<rparr>) of
             Inl e \<Rightarrow> Inl e
           | Inr w' \<Rightarrow> Inr (d @ [n], w')))"

definition cleanup :: "path \<Rightarrow> world \<Rightarrow> world" where
  "cleanup p w = mutate (FsRmtree p) [(q, n) \<leftarrow> fs w. \<not> below p q] w"

text \<open>
  \<open>zipfile.ZipFile(p, 'w')\<close> creates or truncates the archive file; \<open>zf.write(file,
  arcname=file.name)\<close> appends a member (a directory gives an empty member whose name ends
  in a slash); \<open>zf.namelist()\<close> reads the member names.
\<close>

definition zip_open_fs :: "path \<Rightarrow> filesystem \<Rightarrow> exc + filesystem" where
  "zip_open_fs p t =
     (if p = [] \<or> is_dir t p \<or> \<not> is_dir t (parent p) then Inl OSError
      else Inr (AList.update p (File (Archive [])) t))"

definition zip_open :: "path \<Rightarrow> world \<Rightarrow> exc + world" where
  "zip_open p = perform (FsZipOpen p) (zip_open_fs p)"

definition zip_write_fs :: "path \<Rightarrow> path \<Rightarrow> filesystem \<Rightarrow> exc + filesystem" where
  "zip_write_fs p file t =
     (case lookup t p of
        Some (File (Archive ms)) \<Rightarrow>
          (case lookup t file of
             None \<Rightarrow> Inl OSError
           | Some Dir \<Rightarrow> Inr (AList.update p (File (Archive (ms @ [(path_name file @ ''/'', Data [])]))) t)
           | Some (File c) \<Rightarrow> Inr (AList.update p (File (Archive (ms @ [(path_name file, c)]))) t))
      | _ \<Rightarrow> Inl OSError)"

definition zip_write :: "path \<Rightarrow> path \<Rightarrow> world \<Rightarrow> exc + world" where
  "zip_write p file = perform (FsZipWrite p file) (zip_write_fs p file)"

definition namelist :: "path \<Rightarrow> world \<Rightarrow> exc + string list" where
  "namelist p w =
     (if faults w (FsZipRead p) then Inl OSError
      else case lookup (fs w) p of
        Some (File (Archive ms)) \<Rightarrow> Inr (map fst ms)
      | _ \<Rightarrow> Inl OSError)"

section \<open>ConfigStore and the confirmation protocol\<close>

text \<open>
  \<open>ConfigManager.save_config\<close>: writes the dictionary to the configuration file; a failure
  is logged, not raised.
\<close>

definition save_config :: "world \<Rightarrow> world" where
  "save_config w =
     (if faults w FsSaveConfig then logger ERROR ''saving the configuration failed'' [] w
      else logger INFO ''configuration saved'' []
             (w\<lparr>config_file := Some (config w), history := history w @ [Mutated FsSaveConfig]\<rparr>))"

text \<open>\<open>str.strip()\<close>: the white space below 256.\<close>

definition isspace_char :: "char \<Rightarrow> bool" where
  "isspace_char c =
     ((CHR 0x09 \<le> c \<and> c \<le> CHR 0x0D) \<or> (CHR 0x1C \<le> c \<and> c \<le> CHR 0x20)
      \<or> c = CHR 0x85 \<or> c = CHR 0xA0)"

definition strip :: "string \<Rightarrow> string" where
  "strip s = rev (dropWhile isspace_char (rev (dropWhile isspace_char s)))"

text \<open>
  \<open>confirm_operation\<close>. \<open>input()\<close> takes the next line of \<open>stdin\<close> and raises \<open>EOFError\<close>
  when there is none.
\<close>

definition confirm_operation :: "string \<Rightarrow> world \<Rightarrow> exc + (bool \<times> world)" where
  "confirm_operation message w =
     (if dry_run (config w) then Inr (True, logger INFO (''[DRY RUN] confirmation skipped: '' @ message) [] w)
      else if skip_step_confirmations (config w) \<or> \<not> interactive_mode (config w)
        then Inr (True, logger INFO (''confirmation skipped: '' @ message) [] w)
      else (case stdin w of
          [] \<Rightarrow> Inl EOFError
        | line # rest \<Rightarrow>
            (let response = lower (strip line); w1 = w\<lparr>stdin := rest\<rparr> in
             if response = ''a''
             then Inr (True,
                    save_config (w1\<lparr>config := (config w1)\<lparr>skip_step_confirmations := True\<rparr>\<rparr>))
             else Inr (response \<in> set ['''', ''y''], w1))))"

section \<open>BackupManager\<close>

definition record_operation :: "op_kind \<Rightarrow> path \<Rightarrow> path option \<Rightarrow> world \<Rightarrow> world" where
  "record_operation k src tgt w =
     (let r = \<lparr>operation = k, source = src, target = tgt\<rparr>
      in w\<lparr>operation_log := operation_log w @ [r], history := history w @ [Journaled r]\<rparr>)"

text \<open>
  The body of the loop of \<open>rollback\<close> for one record, with its \<open>try\<close>: an exception is logged
  and the loop goes on. \<open>Path(None)\<close> raises \<open>TypeError\<close>. A record of kind create matches
  no branch.
\<close>

definition rollback_op :: "op_record \<Rightarrow> world \<Rightarrow> world" where
  "rollback_op r w =
     (case operation r of
        OpRename \<Rightarrow>
          (case target r of
             None \<Rightarrow> logger ERROR ''rollback of an operation failed'' [] w
           | Some src \<Rightarrow>
               if path_exists (fs w) src \<and> \<not> path_exists (fs w) (source r)
               then (case os_rename src (source r) w of
                       Inl e \<Rightarrow> logger ERROR ''rollback of an operation failed'' [] w
                     | Inr w1 \<Rightarrow> logger INFO ''rolled back rename'' [src, source r] w1)
               else w)
      | OpDelete \<Rightarrow> logger WARNING ''cannot roll back deletion'' [source r] w
      | OpMove \<Rightarrow>
          (case target r of
             None \<Rightarrow> logger ERROR ''rollback of an operation failed'' [] w
           | Some src \<Rightarrow>
               if path_exists (fs w) src
               then (case mkdir_parents (parent (source r)) w of
                       Inl e \<Rightarrow> logger ERROR ''rollback of an operation failed'' [] w
                     | Inr w1 \<Rightarrow>
                         (case shutil_copy2 src (source r) w1 of
                            Inl e \<Rightarrow> logger ERROR ''rollback of an operation failed'' [] w1
                          | Inr w2 \<Rightarrow> logger INFO ''rolled back move'' [src, source r] w2))
               else w)
      | OpCreate \<Rightarrow> w)"

fun rollback_loop :: "op_record list \<Rightarrow> world \<Rightarrow> world" where
  "rollback_loop [] w = w"
| "rollback_loop (r # rs) w = rollback_loop rs (rollback_op r w)"

text \<open>\<open>BackupManager.rollback\<close>: the journal is processed from its last record to its first.\<close>

definition rollback :: "world \<Rightarrow> world" where
  "rollback w =
     logger INFO ''rollback finished'' []
       (rollback_loop (rev (operation_log w)) (logger INFO ''rollback started'' [] w))"

section \<open>safe_rename\<close>

text \<open>
  The loop of \<open>safe_rename\<close> that looks for a name that is free: \<open>dst\<close>, then the stem of
  \<open>dst\<close> with \<open>_1\<close>, \<open>_2\<close>, ... before the suffix. It gives up (\<open>None\<close>) once the
  counter has passed 100.
\<close>

function find_free :: "filesystem \<Rightarrow> path \<Rightarrow> path \<Rightarrow> nat \<Rightarrow> path option" where
  "find_free t dst final_dst counter =
     (if path_exists t final_dst
      then (if counter + 1 > 100 then None
            else find_free t dst
                   (parent dst @ [stem (path_name dst) @ ''_'' @ dec counter @ suffix (path_name dst)])
                   (counter + 1))
      else Some final_dst)"
  by pat_completeness auto
termination
  by (relation "measure (\<lambda>(t, dst, final_dst, counter). 101 - counter)") auto

declare find_free.simps [simp del]

definition safe_rename :: "path \<Rightarrow> path \<Rightarrow> world \<Rightarrow> bool \<times> world" where
  "safe_rename src dst w =
     (if \<not> path_exists (fs w) src then (False, logger ERROR ''source does not exist'' [src] w)
      else if dry_run (config w)
        then (True, record_operation OpRename src (Some dst)
                      (logger INFO ''[DRY RUN] would rename'' [src, dst] w))
      else if src = dst then (True, w)
      else (case find_free (fs w) dst dst 1 of
          None \<Rightarrow> (False, logger ERROR ''no unique file name found'' [dst] w)
        | Some final_dst \<Rightarrow>
            (let w1 = record_operation OpRename src (Some final_dst) w in
             case os_rename src final_dst w1 of
               Inl e \<Rightarrow> (False, logger ERROR ''rename failed'' [src, dst] w1)
             | Inr w2 \<Rightarrow> (True, logger INFO ''renamed'' [src, final_dst] w2))))"

section \<open>Pipeline steps\<close>

text \<open>
  The progress display of the steps is not modelled. A step returns the new state, or the
  exception that leaves it.
\<close>

fun for_each :: "('a \<Rightarrow> world \<Rightarrow> exc + world) \<Rightarrow> 'a list \<Rightarrow> world \<Rightarrow> exc + world" where
  "for_each body [] w = Inr w"
| "for_each body (x # xs) w =
     (case body x w of Inl e \<Rightarrow> Inl e | Inr w1 \<Rightarrow> for_each body xs w1)"

text \<open>The directories directly under the root, and those directly under them.\<close>

definition listed_dirs :: "world \<Rightarrow> path \<Rightarrow> path list" where
  "listed_dirs w d =
     [p \<leftarrow> iterdir (fs w) d. is_dir (fs w) p \<and> path_name p \<notin> set (skip_dirs (config w))]"

definition parent_dirs :: "world \<Rightarrow> path list" where
  "parent_dirs w = listed_dirs w []"

definition child_dirs :: "world \<Rightarrow> path list" where
  "child_dirs w = concat (map (listed_dirs w) (parent_dirs w))"

text \<open>
  The frame every step shares: no candidates, then a warning and nothing else; else the
  confirmation; declined, then a log entry and nothing else; else the loop.
\<close>

definition run_step ::
  "string \<Rightarrow> nat \<Rightarrow> (world \<Rightarrow> exc + world) \<Rightarrow> world \<Rightarrow> exc + world" where
  "run_step step_name n_total loop w =
     (let w1 = logger INFO (step_name @ '': candidates: '' @ dec n_total) [] w in
      if n_total = 0 then Inr (logger WARNING (step_name @ '': nothing to do'') [] w1)
      else (case confirm_operation (step_name @ '': '' @ dec n_total) w1 of
          Inl e \<Rightarrow> Inl e
        | Inr (ok, w2) \<Rightarrow>
            if \<not> ok then Inr (logger INFO (step_name @ '': cancelled by the user'') [] w2)
            else loop w2))"

subsection \<open>Steps 2 and 3: numbering\<close>

text \<open>
  \<open>zfill\<close> and \<open>dec\<close> print a number of at least four digits; an integer is determined by
  its print, which the loop below needs to end.
\<close>

definition digits_value :: "string \<Rightarrow> nat" where
  "digits_value s = foldl (\<lambda>a c. 10 * a + digit_val c) 0 s"

definition int_of_fmt :: "string \<Rightarrow> int" where
  "int_of_fmt s = (case s of
                     [] \<Rightarrow> 0
                   | c # cs \<Rightarrow> if c = CHR ''-'' then - int (digits_value cs)
                              else int (digits_value s))"

section \<open>Example states\<close>

text \<open>A configuration and a state on which the theorems below are instantiated.\<close>

definition example_config :: config where
  "example_config = \<lparr>start_num = 0, skip_dirs = [''$RECYCLE.BIN''], interactive_mode = True,
     skip_step_confirmations = False, dry_run = False\<rparr>"

definition example_world :: "filesystem \<Rightarrow> string list \<Rightarrow> world" where
  "example_world t lines = \<lparr>fs = t, config = example_config, config_file = None,
     operation_log = [], log = [], history = [], stdin = lines, temp_names = [''tmp0'', ''tmp1''],
     uuid_source = (\<lambda>n. ''0000000'' @ dec n), uuid_count = 0, faults = (\<lambda>_. False)\<rparr>"

section \<open>Well-formed trees\<close>

text \<open>
  A tree is well formed when no path is listed twice, the root is not listed, and every proper
  prefix of a listed path is a directory.
\<close>

definition wf_fs :: "filesystem \<Rightarrow> bool" where
  "wf_fs t = (distinct (map fst t)
              \<and> list_all (\<lambda>p. p \<noteq> [] \<and> list_all (\<lambda>k. is_dir t (take k p)) [0..<length p])
                    (map fst t))"

text \<open>The path that \<open>p\<close> has once \<open>src\<close> has been relocated to \<open>dst\<close>.\<close>

definition rekey :: "path \<Rightarrow> path \<Rightarrow> path \<Rightarrow> path" where
  "rekey src dst q = (if below src q then dst @ drop (length src) q else q)"

section \<open>Example journal\<close>

definition example_tree :: filesystem where
  "example_tree =
     [([''A''], Dir), ([''A'', ''0001.jpg''], File (Data ''page one'')),
      ([''B''], Dir), ([''B'', ''p.jpg''], File (Data ''page two''))]"

definition example_rename :: op_record where
  "example_rename = \<lparr>operation = OpRename, source = [''A'', ''a.jpg''],
                      target = Some [''A'', ''0001.jpg'']\<rparr>"

definition example_move :: op_record where
  "example_move = \<lparr>operation = OpMove, source = [''B'', ''sub'', ''p.jpg''],
                    target = Some [''B'', ''p.jpg'']\<rparr>"

definition example_delete :: op_record where
  "example_delete = \<lparr>operation = OpDelete, source = [''B'', ''sub''], target = None\<rparr>"

section \<open>Properties of NaturalSort\<close>

lemma char_neq_iff: "c \<noteq> d \<longleftrightarrow> (of_char c :: nat) \<noteq> of_char d"
  by simp

lemma lower_char_code:
  "(of_char (lower_char c) :: nat) =
     (if (65 \<le> (of_char c :: nat) \<and> (of_char c :: nat) \<le> 90)
         \<or> (192 \<le> (of_char c :: nat) \<and> (of_char c :: nat) \<le> 222 \<and> (of_char c :: nat) \<noteq> 215)
      then of_char c + 32 else of_char c)"
  by (simp add: lower_char_def less_eq_char_def char_neq_iff del: of_char_eq_iff)

lemma re_digit_code: "re_digit c \<longleftrightarrow> 48 \<le> (of_char c :: nat) \<and> (of_char c :: nat) \<le> 57"
  by (simp add: re_digit_def less_eq_char_def)

lemma re_digit_lower_char [simp]: "re_digit (lower_char c) = re_digit c"
  by (simp add: re_digit_code lower_char_code)

lemma lower_char_digit: "re_digit c \<Longrightarrow> lower_char c = c"
  by (simp add: re_digit_code lower_char_def less_eq_char_def)

lemma isdigit_char_code:
  "isdigit_char c \<longleftrightarrow> re_digit c \<or> (of_char c :: nat) \<in> {178, 179, 185}"
  by (simp add: isdigit_char_def  flip: of_char_eq_iff [where ?'a = nat])

lemma isdigit_char_lower_char [simp]: "isdigit_char (lower_char c) = isdigit_char c"
  by (auto simp add: isdigit_char_code lower_char_code re_digit_code split: if_splits)

lemma lower_char_idem [simp]: "lower_char (lower_char c) = lower_char c"
proof -
  have "(of_char (lower_char (lower_char c)) :: nat) = of_char (lower_char c)"
    by (subst lower_char_code) (auto simp: lower_char_code)
  then show ?thesis by simp
qed

lemma lower_digits: "list_all re_digit t \<Longrightarrow> lower t = t"
  by (induction t) (simp_all add: lower_def lower_char_digit)

lemma list_all_takeWhile: "list_all P (takeWhile P xs)"
  by (induction xs) auto

lemma re_split_runs_ok: "runs_ok False (re_split s)"
proof (induction s rule: re_split.induct)
  case (1 s)
  let ?r = "dropWhile (\<lambda>c. \<not> re_digit c) s"
  show ?case
  proof (cases "?r = []")
    case True
    then show ?thesis
      by (subst re_split.simps) (auto simp: list_all_iff)
  next
    case False
    then have hd: "re_digit (hd ?r)"
      using hd_dropWhile [of "\<lambda>c. \<not> re_digit c" s] by simp
    with False have ne: "takeWhile re_digit ?r \<noteq> []"
      by (cases ?r) auto
    from False 1 have "runs_ok False (re_split (dropWhile re_digit ?r))"
      by simp
    with False ne show ?thesis
      by (subst re_split.simps) (auto simp: list_all_takeWhile)
  qed
qed

lemma re_split_concat: "concat (re_split s) = s"
proof (induction s rule: re_split.induct)
  case (1 s)
  show ?case
  proof (cases "dropWhile (\<lambda>c. \<not> re_digit c) s = []")
    case True
    then show ?thesis by (subst re_split.simps) simp
  next
    case False
    with 1 show ?thesis
      by (subst re_split.simps) (simp flip: append_assoc)
  qed
qed

lemma re_split_lower: "re_split (lower s) = map lower (re_split s)"
proof (induction s rule: re_split.induct)
  case (1 s)
  have dw: "dropWhile (\<lambda>c. \<not> re_digit c) (lower s) = lower (dropWhile (\<lambda>c. \<not> re_digit c) s)"
    by (simp add: lower_def dropWhile_map comp_def)
  have tw: "takeWhile (\<lambda>c. \<not> re_digit c) (lower s) = lower (takeWhile (\<lambda>c. \<not> re_digit c) s)"
    by (simp add: lower_def takeWhile_map comp_def)
  have dw2: "dropWhile re_digit (lower r) = lower (dropWhile re_digit r)" for r
    by (simp add: lower_def dropWhile_map comp_def)
  have tw2: "takeWhile re_digit (lower r) = lower (takeWhile re_digit r)" for r
    by (simp add: lower_def takeWhile_map comp_def)
  show ?case
  proof (cases "dropWhile (\<lambda>c. \<not> re_digit c) s = []")
    case True
    then have "re_split s = [s]" "re_split (lower s) = [lower s]"
      by (subst re_split.simps, simp add: dw lower_def)+
    then show ?thesis by simp
  next
    case False
    then have ne: "dropWhile (\<lambda>c. \<not> re_digit c) (lower s) \<noteq> []"
      by (simp add: dw lower_def)
    show ?thesis
      apply (subst re_split.simps)
      apply (subst (2) re_split.simps)
      using False ne 1 by (simp add: dw tw dw2 tw2)
  qed
qed

lemma key_part_of_lower: "key_part_of (lower t) = key_part_of t"
proof -
  have d: "isdigit (lower t) = isdigit t"
    by (simp add: isdigit_def lower_def list_all_iff)
  have a: "list_all re_digit (lower t) = list_all re_digit t"
    by (simp add: lower_def list_all_iff)
  have i: "py_int (lower t) = py_int t"
    using a by (auto simp: py_int_def lower_digits)
  have l: "lower (lower t) = lower t"
    by (simp add: lower_def)
  show ?thesis
    by (simp add: key_part_of_def d i l)
qed

lemma natural_sort_key_lower: "natural_sort_key (lower name) = natural_sort_key name"
proof -
  have "map key_part_of (re_split (lower name)) = map key_part_of (re_split name)"
    by (simp add: re_split_lower comp_def key_part_of_lower)
  moreover have "lower (lower name) = lower name"
    by (simp add: lower_def)
  ultimately show ?thesis
    by (simp add: natural_sort_key_def split: option.splits)
qed

lemma key_part_of_digit_run:
  "t \<noteq> [] \<Longrightarrow> list_all re_digit t \<Longrightarrow>
     key_part_of t = Some (KInt (foldl (\<lambda>a c. 10 * a + digit_val c) 0 t))"
  by (simp add: key_part_of_def isdigit_def isdigit_char_def py_int_def list_all_iff)

lemma key_part_of_text:
  "list_all (\<lambda>c. \<not> re_digit c) t \<Longrightarrow> key_part_of t = Some p \<Longrightarrow> p = KStr (lower t)"
  by (cases t) (auto simp: key_part_of_def py_int_def split: if_splits)

lemma those_key_parts:
  "runs_ok b ts \<Longrightarrow> odd n = b \<Longrightarrow> those (map key_part_of ts) = Some k \<Longrightarrow>
     k = map (\<lambda>(i, t). key_part_at i t) (enumerate n ts)"
proof (induction ts arbitrary: b n k)
  case Nil
  then show ?case by simp
next
  case (Cons t ts)
  from Cons.prems(3) obtain p k' where
    p: "key_part_of t = Some p" and k': "those (map key_part_of ts) = Some k'" and k: "k = p # k'"
    by (auto split: option.splits)
  from Cons.prems(1) have rest: "runs_ok (\<not> b) ts" by simp
  from Cons.prems(2) have "odd (Suc n) = (\<not> b)" by simp
  from Cons.IH [OF rest this k']
  have tail: "k' = map (\<lambda>(i, t). key_part_at i t) (enumerate (Suc n) ts)" .
  have "p = key_part_at n t"
  proof (cases b)
    case True
    with Cons.prems(1) have "t \<noteq> []" "list_all re_digit t" by simp_all
    from key_part_of_digit_run [OF this] p True Cons.prems(2) show ?thesis
      by (simp add: key_part_at_def)
  next
    case False
    with Cons.prems(1) have "list_all (\<lambda>c. \<not> re_digit c) t" by simp
    from key_part_of_text [OF this p] False Cons.prems(2) show ?thesis
      by (simp add: key_part_at_def)
  qed
  with k tail show ?case by simp
qed

lemma typed_key_parts: "odd n = b \<Longrightarrow> typed b (map (\<lambda>(i, t). key_part_at i t) (enumerate n ts))"
  by (induction ts arbitrary: b n) (auto simp: key_part_at_def)

lemma natural_sort_key_typed: "typed False (natural_sort_key name)"
proof (cases "those (map key_part_of (re_split name))")
  case None
  then show ?thesis by (simp add: natural_sort_key_def)
next
  case (Some k)
  from those_key_parts [OF re_split_runs_ok _ Some, of 0]
  have "k = map (\<lambda>(i, t). key_part_at i t) (enumerate 0 (re_split name))" by simp
  with Some typed_key_parts [of 0 False "re_split name"] show ?thesis
    by (simp add: natural_sort_key_def)
qed

lemma typed_nth:
  "typed b k \<Longrightarrow> i < length k \<Longrightarrow>
     (if even i = b then \<exists>n. k ! i = KInt n else \<exists>s. k ! i = KStr s)"
proof (induction b k arbitrary: i rule: typed.induct)
  case (1 b)
  then show ?case by simp
next
  case (2 b s ps)
  then show ?case by (cases i) auto
next
  case (3 b n ps)
  then show ?case by (cases i) auto
qed

lemma key_lt_typed: "typed b k1 \<Longrightarrow> typed b k2 \<Longrightarrow> \<exists>r. key_lt k1 k2 = Some r"
proof (induction k1 k2 arbitrary: b rule: key_lt.induct)
  case (4 x xs y ys)
  then show ?case
    by (cases x; cases y) auto
qed auto

lemma insert_sorted_total:
  "\<forall>y \<in> set ys. \<exists>r. key_lt (k y) (k x) = Some r \<Longrightarrow>
     \<exists>r. insert_sorted k x ys = Some r \<and> set r = insert x (set ys)"
proof (induction ys)
  case Nil
  then show ?case by simp
next
  case (Cons y ys)
  then obtain r where "insert_sorted k x ys = Some r" "set r = insert x (set ys)"
    by auto
  moreover from Cons.prems obtain c where "key_lt (k y) (k x) = Some c"
    by auto
  ultimately show ?case
    by (cases c) auto
qed

lemma py_sorted_total:
  "\<forall>x \<in> set xs. \<forall>y \<in> set xs. \<exists>r. key_lt (k y) (k x) = Some r \<Longrightarrow>
     \<exists>r. py_sorted k xs = Some r \<and> set r = set xs"
proof (induction xs)
  case Nil
  then show ?case by simp
next
  case (Cons x xs)
  then obtain r where r: "py_sorted k xs = Some r" "set r = set xs"
    by auto
  with Cons.prems have "\<forall>y \<in> set r. \<exists>c. key_lt (k y) (k x) = Some c"
    by simp
  from insert_sorted_total [OF this] r show ?case
    by auto
qed

text \<open>
  Claim C8. \<open>natural_sort_key\<close> splits a name into alternating runs of non-digits and digits
  (the runs concatenate to the name; texts hold no digit, digit runs are non-empty). Unless
  the fallback is taken, the key holds the integer value of every digit run and the
  lower-cased form of every text, so that digit runs compare as integers and texts without
  regard to case: names that differ only in case have the same key. The key of "page2" is
  smaller than the key of "page10", and sorting 2.jpg, 10.jpg, 1.jpg by the key gives 1.jpg,
  2.jpg, 10.jpg. When the conversion of a run fails, the key is the single lower-cased
  name. The function returns a key for every name: it never raises.
\<close>

theorem natural_sort_key_contract:
  "concat (re_split name) = name
   \<and> runs_ok False (re_split name)
   \<and> (\<not> fallback_taken name \<longrightarrow>
        natural_sort_key name = map (\<lambda>(i, t). key_part_at i t) (enumerate 0 (re_split name)))
   \<and> (fallback_taken name \<longrightarrow> natural_sort_key name = [KStr (lower name)])
   \<and> (lower a = lower b \<longrightarrow> natural_sort_key a = natural_sort_key b)
   \<and> key_lt (natural_sort_key ''page2'') (natural_sort_key ''page10'') = Some True
   \<and> py_sorted natural_sort_key [''2.jpg'', ''10.jpg'', ''1.jpg'']
       = Some [''1.jpg'', ''2.jpg'', ''10.jpg'']"
proof -
  have split: "\<not> fallback_taken name \<longrightarrow>
      natural_sort_key name = map (\<lambda>(i, t). key_part_at i t) (enumerate 0 (re_split name))"
  proof
    assume "\<not> fallback_taken name"
    then obtain k where k: "those (map key_part_of (re_split name)) = Some k"
      by (auto simp: fallback_taken_def)
    from those_key_parts [OF re_split_runs_ok _ k, of 0] k
    show "natural_sort_key name = map (\<lambda>(i, t). key_part_at i t) (enumerate 0 (re_split name))"
      by (simp add: natural_sort_key_def)
  qed
  have fb: "fallback_taken name \<longrightarrow> natural_sort_key name = [KStr (lower name)]"
    by (simp add: fallback_taken_def natural_sort_key_def)
  have ci: "lower a = lower b \<longrightarrow> natural_sort_key a = natural_sort_key b"
    by (metis natural_sort_key_lower)
  have p: "key_lt (natural_sort_key ''page2'') (natural_sort_key ''page10'') = Some True"
    by code_simp
  have s: "py_sorted natural_sort_key [''2.jpg'', ''10.jpg'', ''1.jpg'']
       = Some [''1.jpg'', ''2.jpg'', ''10.jpg'']"
    by code_simp
  show ?thesis
    using re_split_concat [of name] re_split_runs_ok [of name] split fb ci p s
    by blast
qed

theorem natural_sort_key_contract_witness:
  "\<not> fallback_taken ''Page10b.JPG''
   \<and> natural_sort_key ''Page10b.JPG'' = [KStr ''page'', KInt 10, KStr ''b.jpg'']
   \<and> fallback_taken [CHR 0xB2]
   \<and> natural_sort_key [CHR 0xB2] = [KStr [CHR 0xB2]]
   \<and> lower ''Page2'' = lower ''pAGE2''
   \<and> natural_sort_key ''Page2'' = natural_sort_key ''pAGE2''"
proof -
  have n: "\<not> fallback_taken ''Page10b.JPG''" by code_simp
  have f: "fallback_taken [CHR 0xB2]" by code_simp
  have l: "lower ''Page2'' = lower ''pAGE2''" by code_simp
  have e: "map (\<lambda>(i, t). key_part_at i t) (enumerate 0 (re_split ''Page10b.JPG''))
             = [KStr ''page'', KInt 10, KStr ''b.jpg'']" by code_simp
  have e2: "lower [CHR 0xB2] = [CHR 0xB2]" by code_simp
  from natural_sort_key_contract [of "''Page10b.JPG''" "''Page2''" "''pAGE2''"]
       natural_sort_key_contract [of "[CHR 0xB2]" "''Page2''" "''pAGE2''"] n f l e e2
  show ?thesis by simp
qed

text \<open>
  Claim C10. For names on which the fallback branch is not taken, the key holds a \<open>str\<close> at
  every even index and an \<open>int\<close> at every odd index; comparing the keys of two such names
  never raises \<open>TypeError\<close>, and sorting a list of such names by the key returns a list.
\<close>

theorem natural_sort_key_comparable:
  assumes "\<not> fallback_taken a" and "\<not> fallback_taken b"
    and "\<forall>n \<in> set names. \<not> fallback_taken n"
  shows "(\<forall>i < length (natural_sort_key a).
            if even i then \<exists>s. natural_sort_key a ! i = KStr s
            else \<exists>n. natural_sort_key a ! i = KInt n)
         \<and> key_lt (natural_sort_key a) (natural_sort_key b) \<noteq> None
         \<and> py_sorted natural_sort_key names \<noteq> None"
proof -
  have idx: "\<forall>i < length (natural_sort_key a).
            if even i then \<exists>s. natural_sort_key a ! i = KStr s
            else \<exists>n. natural_sort_key a ! i = KInt n"
    using typed_nth [OF natural_sort_key_typed, of _ a] by auto
  have cmp: "\<exists>r. key_lt (natural_sort_key x) (natural_sort_key y) = Some r" for x y
    by (rule key_lt_typed [OF natural_sort_key_typed natural_sort_key_typed])
  then have "\<exists>r. py_sorted natural_sort_key names = Some r \<and> set r = set names"
    by (intro py_sorted_total) blast
  with idx cmp [of a b] show ?thesis by auto
qed

theorem natural_sort_key_comparable_witness:
  "\<not> fallback_taken ''page2'' \<and> \<not> fallback_taken ''10.jpg''
   \<and> \<not> fallback_taken ''2.jpg'' \<and> \<not> fallback_taken ''b'' \<and> \<not> fallback_taken ''10a''
   \<and> key_lt (natural_sort_key ''page2'') (natural_sort_key ''10.jpg'') \<noteq> None
   \<and> py_sorted natural_sort_key [''2.jpg'', ''b'', ''10a''] \<noteq> None"
proof -
  have a: "\<not> fallback_taken ''page2''" by code_simp
  have b: "\<not> fallback_taken ''10.jpg''" by code_simp
  have c: "\<forall>n \<in> set [''2.jpg'', ''b'', ''10a'']. \<not> fallback_taken n" by code_simp
  from natural_sort_key_comparable [OF a b c] a b c show ?thesis by simp
qed

section \<open>Properties of the confirmation protocol\<close>

lemma logger_simps [simp]:
  "fs (logger l m ps w) = fs w" "config (logger l m ps w) = config w"
  "config_file (logger l m ps w) = config_file w" "operation_log (logger l m ps w) = operation_log w"
  "history (logger l m ps w) = history w" "stdin (logger l m ps w) = stdin w"
  "temp_names (logger l m ps w) = temp_names w" "faults (logger l m ps w) = faults w"
  "uuid_source (logger l m ps w) = uuid_source w" "uuid_count (logger l m ps w) = uuid_count w"
  "log (logger l m ps w) = log w @ [(l, m, ps)]"
  by (simp_all add: logger_def)

lemma save_config_simps [simp]:
  "fs (save_config w) = fs w" "config (save_config w) = config w"
  "stdin (save_config w) = stdin w" "operation_log (save_config w) = operation_log w"
  "faults (save_config w) = faults w"
  "\<not> faults w FsSaveConfig \<Longrightarrow> config_file (save_config w) = Some (config w)"
  by (simp_all add: save_config_def)

text \<open>
  Claim C9. \<open>confirm_operation\<close> follows the confirmation protocol. In dry-run mode it
  returns \<open>True\<close> and only writes a log entry. Otherwise, when confirmations are skipped or
  the mode is not interactive, it returns \<open>True\<close> and only writes a log entry. Otherwise it
  reads one line: an empty answer or \<open>y\<close> (after stripping and lower-casing) returns
  \<open>True\<close>; the answer \<open>a\<close> returns \<open>True\<close>, sets \<open>skip_step_confirmations\<close> and saves the
  configuration at once (the file then holds the new configuration unless the write
  fails), so that the next call returns \<open>True\<close> without reading a line; any other answer
  returns \<open>False\<close>, and the step that asked then ends without running its loop: the tree,
  the journal and the chronicle are as before, and one line was read.
\<close>

theorem confirm_operation_protocol:
  "(dry_run (config w) \<longrightarrow>
      confirm_operation m w = Inr (True, w\<lparr>log := log w @ [(INFO, ''[DRY RUN] confirmation skipped: '' @ m, [])]\<rparr>))
   \<and> (\<not> dry_run (config w) \<and> (skip_step_confirmations (config w) \<or> \<not> interactive_mode (config w)) \<longrightarrow>
      confirm_operation m w = Inr (True, w\<lparr>log := log w @ [(INFO, ''confirmation skipped: '' @ m, [])]\<rparr>))
   \<and> (\<not> dry_run (config w) \<and> \<not> skip_step_confirmations (config w) \<and> interactive_mode (config w)
        \<and> stdin w = line # rest \<longrightarrow>
        (lower (strip line) = [] \<or> lower (strip line) = ''y'' \<longrightarrow>
           confirm_operation m w = Inr (True, w\<lparr>stdin := rest\<rparr>))
      \<and> (lower (strip line) = ''a'' \<longrightarrow>
           (\<exists>w'. confirm_operation m w = Inr (True, w')
              \<and> config w' = (config w)\<lparr>skip_step_confirmations := True\<rparr>
              \<and> (\<not> faults w FsSaveConfig \<longrightarrow> config_file w' = Some (config w'))
              \<and> fs w' = fs w \<and> stdin w' = rest
              \<and> (\<exists>w''. confirm_operation m2 w' = Inr (True, w'') \<and> stdin w'' = rest)))
      \<and> (lower (strip line) \<noteq> [] \<and> lower (strip line) \<noteq> ''y'' \<and> lower (strip line) \<noteq> ''a'' \<longrightarrow>
           confirm_operation m w = Inr (False, w\<lparr>stdin := rest\<rparr>)
           \<and> (0 < n \<longrightarrow> (\<exists>w'. run_step nm n loop w = Inr w' \<and> fs w' = fs w
                 \<and> history w' = history w \<and> operation_log w' = operation_log w \<and> stdin w' = rest))))"
  by (auto simp: confirm_operation_def logger_def Let_def run_step_def save_config_def)


theorem confirm_operation_protocol_witness:
  "dry_run (config ((example_world [] [])\<lparr>config := example_config\<lparr>dry_run := True\<rparr>\<rparr>))
   \<and> (\<exists>w'. confirm_operation ''go'' ((example_world [] [])\<lparr>config := example_config\<lparr>dry_run := True\<rparr>\<rparr>)
          = Inr (True, w'))
   \<and> \<not> interactive_mode (config ((example_world [] [])\<lparr>config := example_config\<lparr>interactive_mode := False\<rparr>\<rparr>))
   \<and> (\<exists>w'. confirm_operation ''go''
          ((example_world [] [])\<lparr>config := example_config\<lparr>interactive_mode := False\<rparr>\<rparr>) = Inr (True, w'))
   \<and> lower (strip '' Y '') = ''y''
   \<and> confirm_operation ''go'' (example_world [] ['' Y '', ''x''])
        = Inr (True, (example_world [] ['' Y '', ''x''])\<lparr>stdin := [''x'']\<rparr>)
   \<and> lower (strip ''A'') = ''a''
   \<and> (\<exists>w'. confirm_operation ''go'' (example_world [] [''A'', ''no'']) = Inr (True, w')
         \<and> skip_step_confirmations (config w') \<and> config_file w' = Some (config w')
         \<and> (\<exists>w''. confirm_operation ''next'' w' = Inr (True, w'') \<and> stdin w'' = [''no'']))
   \<and> lower (strip ''yes'') = ''yes''
   \<and> confirm_operation ''go'' (example_world [] [''yes''])
        = Inr (False, (example_world [] [''yes''])\<lparr>stdin := []\<rparr>)
   \<and> (\<exists>w'. run_step ''step'' 3 (\<lambda>w. Inr (w\<lparr>fs := [([''x''], Dir)]\<rparr>)) (example_world [] [''yes'']) = Inr w'
         \<and> fs w' = [] \<and> stdin w' = [])"
proof -
  let ?dry = "(example_world [] [])\<lparr>config := example_config\<lparr>dry_run := True\<rparr>\<rparr>"
  let ?batch = "(example_world [] [])\<lparr>config := example_config\<lparr>interactive_mode := False\<rparr>\<rparr>"
  have c: "\<not> dry_run (config (example_world t ls))"
          "\<not> skip_step_confirmations (config (example_world t ls))"
          "interactive_mode (config (example_world t ls))"
          "stdin (example_world t ls) = ls" "fs (example_world t ls) = t"
          "\<not> faults (example_world t ls) FsSaveConfig" for t ls
    by (simp_all add: example_world_def example_config_def)
  have d: "dry_run (config ?dry)"
    by (simp add: example_world_def example_config_def)
  have b: "\<not> dry_run (config ?batch)" "\<not> interactive_mode (config ?batch)"
    by (simp_all add: example_world_def example_config_def)
  have y: "lower (strip '' Y '') = ''y''" by code_simp
  have a: "lower (strip ''A'') = ''a''" by code_simp
  have n: "lower (strip ''yes'') = ''yes''" by code_simp
  note t1 = confirm_operation_protocol [of ?dry "''go''"]
  note t2 = confirm_operation_protocol [of ?batch "''go''"]
  note t3 = confirm_operation_protocol [of "example_world [] ['' Y '', ''x'']" "''go''" "'' Y ''" "[''x'']"]
  note t4 = confirm_operation_protocol [of "example_world [] [''A'', ''no'']" "''go''" "''A''" "[''no'']" "''next''"]
  note t5 = confirm_operation_protocol [of "example_world [] [''yes'']" "''go''" "''yes''" "[]" _ 3 "''step''"
              "\<lambda>w. Inr (w\<lparr>fs := [([''x''], Dir)]\<rparr>)"]
  have 1: "\<exists>w'. confirm_operation ''go'' ?dry = Inr (True, w')"
    using t1 d by blast
  have 2: "\<exists>w'. confirm_operation ''go'' ?batch = Inr (True, w')"
    using t2 b by blast
  have 3: "confirm_operation ''go'' (example_world [] ['' Y '', ''x''])
        = Inr (True, (example_world [] ['' Y '', ''x''])\<lparr>stdin := [''x'']\<rparr>)"
    using t3 c y by simp
  have 4: "\<exists>w'. confirm_operation ''go'' (example_world [] [''A'', ''no'']) = Inr (True, w')
         \<and> skip_step_confirmations (config w') \<and> config_file w' = Some (config w')
         \<and> (\<exists>w''. confirm_operation ''next'' w' = Inr (True, w'') \<and> stdin w'' = [''no''])"
    using t4 c a by auto
  have 5: "confirm_operation ''go'' (example_world [] [''yes''])
        = Inr (False, (example_world [] [''yes''])\<lparr>stdin := []\<rparr>)"
    using t5 c n by simp
  have 6: "\<exists>w'. run_step ''step'' 3 (\<lambda>w. Inr (w\<lparr>fs := [([''x''], Dir)]\<rparr>)) (example_world [] [''yes'']) = Inr w'
         \<and> fs w' = [] \<and> stdin w' = []"
    using t5 c n by auto
  from d b(2) y a n 1 2 3 4 5 6 show ?thesis by blast
qed

section \<open>Properties of the file system model\<close>

lemma wf_fs_iff:
  "wf_fs t \<longleftrightarrow> distinct (map fst t)
              \<and> (\<forall>p \<in> fst ` set t. p \<noteq> [] \<and> (\<forall>k < length p. is_dir t (take k p)))"
  by (auto simp: wf_fs_def list_all_iff)

lemma below_refl [simp]: "below d d"
  by (simp add: below_def)

lemma below_Nil [simp]: "below [] p"
  by (simp add: below_def)

lemma below_append [simp]: "below d (d @ r)"
  by (simp add: below_def)

lemma below_iff: "below d p \<longleftrightarrow> (\<exists>r. p = d @ r)"
  by (metis append_take_drop_id below_append below_def)

lemma below_trans: "below a b \<Longrightarrow> below b c \<Longrightarrow> below a c"
  by (auto simp: below_iff)

lemma below_length: "below d p \<Longrightarrow> length d \<le> length p"
  by (auto simp: below_iff)

lemma below_antisym: "below a b \<Longrightarrow> below b a \<Longrightarrow> a = b"
  by (auto simp: below_iff)

lemma lookup_update:
  "k \<noteq> [] \<Longrightarrow> lookup (AList.update k v t) q = (if q = k then Some v else lookup t q)"
  by (simp add: lookup_def update_conv')

lemma lookup_delete:
  "k \<noteq> [] \<Longrightarrow> lookup (AList.delete k t) q = (if q = k then None else lookup t q)"
  by (simp add: lookup_def delete_conv')

lemma lookup_None_iff: "lookup t p = None \<longleftrightarrow> p \<noteq> [] \<and> p \<notin> fst ` set t"
  by (simp add: lookup_def map_of_eq_None_iff)

lemma path_exists_iff: "path_exists t p \<longleftrightarrow> p = [] \<or> p \<in> fst ` set t"
  by (auto simp: path_exists_def lookup_None_iff)

text \<open>In a well-formed tree nothing lies under a path that does not exist or is a file.\<close>

lemma wf_below_is_dir:
  assumes "wf_fs t" "q \<in> fst ` set t" "below d q" "q \<noteq> d"
  shows "is_dir t d"
proof -
  from assms(3,4) have "length d < length q"
    by (metis below_def below_length le_neq_implies_less take_all_iff order_refl)
  with assms(1,2) have "is_dir t (take (length d) q)"
    by (auto simp: wf_fs_iff)
  with assms(3) show ?thesis by (simp add: below_def)
qed

lemma wf_nothing_below:
  assumes "wf_fs t" "\<not> is_dir t d" "q \<in> fst ` set t" "below d q"
  shows "q = d"
  using wf_below_is_dir [OF assms(1,3,4)] assms(2) by blast

lemma map_of_rekey:
  "inj_on g (insert k (fst ` set t)) \<Longrightarrow>
     map_of (map (\<lambda>(q, n). (g q, n)) t) (g k) = map_of t k"
  by (induction t) (auto simp: inj_on_def)

lemma map_of_rekey_None:
  "q \<notin> g ` fst ` set t \<Longrightarrow> map_of (map (\<lambda>(q, n). (g q, n)) t) q = None"
  by (force simp: map_of_eq_None_iff)

lemma relocate_rekey:
  "relocate src dst t = map (\<lambda>(q, n). (rekey src dst q, n)) (AList.delete dst t)"
  by (auto simp: relocate_def rekey_def)

lemma rekey_inj_on:
  assumes "\<forall>q \<in> K. \<not> below dst q"
  shows "inj_on (rekey src dst) K"
proof (rule inj_onI)
  fix a b
  assume a: "a \<in> K" and b: "b \<in> K" and e: "rekey src dst a = rekey src dst b"
  show "a = b"
  proof (cases "below src a"; cases "below src b")
    assume "below src a" "below src b"
    with e show ?thesis
      by (auto simp: rekey_def below_iff)
  next
    assume "below src a" "\<not> below src b"
    with e have "below dst b" by (auto simp: rekey_def)
    with assms b show ?thesis by blast
  next
    assume "\<not> below src a" "below src b"
    with e have "below dst a" by (auto simp: rekey_def)
    with assms a show ?thesis by blast
  next
    assume "\<not> below src a" "\<not> below src b"
    with e show ?thesis by (simp add: rekey_def)
  qed
qed

text \<open>What a relocation does, when nothing lies at or under the target.\<close>

lemma map_of_relocate:
  assumes free: "\<forall>q \<in> fst ` set t. \<not> below dst q"
  shows "map_of (relocate src dst t) q =
           (if below dst q then (if src @ drop (length dst) q \<in> fst ` set t then map_of t (src @ drop (length dst) q) else None)
            else if below src q then None else map_of t q)"
proof -
  let ?K = "fst ` set t"
  let ?g = "rekey src dst"
  have del: "AList.delete dst t = t"
    using free by (auto simp: AList.delete_eq intro!: filter_True)
  have rel: "relocate src dst t = map (\<lambda>(q, n). (?g q, n)) t"
    by (simp add: relocate_rekey del)
  have inj: "inj_on ?g ?K"
    by (rule rekey_inj_on [OF free])
  have pre: "k = src @ drop (length dst) q" if "?g k = q" "k \<in> ?K" "below dst q" for k
  proof (cases "below src k")
    case True
    then obtain r where "k = src @ r" by (auto simp: below_iff)
    with that(1) True show ?thesis by (auto simp: rekey_def)
  next
    case False
    with that(1) have "k = q" by (simp add: rekey_def)
    with that(2,3) free show ?thesis by blast
  qed
  show ?thesis
  proof (cases "below dst q")
    case True
    let ?k = "src @ drop (length dst) q"
    have gk: "?g ?k = q"
      using True by (auto simp: rekey_def below_iff)
    show ?thesis
    proof (cases "?k \<in> ?K")
      case in_K: True
      then have "inj_on ?g (insert ?k ?K)"
        using inj by (simp add: insert_absorb)
      from map_of_rekey [OF this] gk in_K True show ?thesis
        by (simp add: rel)
    next
      case out: False
      have "q \<notin> ?g ` ?K"
      proof
        assume "q \<in> ?g ` ?K"
        then obtain k where k: "k \<in> ?K" "?g k = q" by blast
        from pre [OF k(2) k(1) True] k(1) out show False by simp
      qed
      from map_of_rekey_None [OF this] True out show ?thesis
        by (simp add: rel)
    qed
  next
    case nd: False
    show ?thesis
    proof (cases "below src q")
      case True
      have "q \<notin> ?g ` ?K"
      proof
        assume "q \<in> ?g ` ?K"
        then obtain k where k: "k \<in> ?K" "?g k = q" by blast
        show False
        proof (cases "below src k")
          case True
          with k(2) have "below dst q" by (auto simp: rekey_def)
          with nd show False by simp
        next
          case False
          with k(2) have "k = q" by (simp add: rekey_def)
          with False \<open>below src q\<close> show False by simp
        qed
      qed
      from map_of_rekey_None [OF this] nd True show ?thesis
        by (simp add: rel)
    next
      case False
      then have gq: "?g q = q" by (simp add: rekey_def)
      show ?thesis
      proof (cases "q \<in> ?K")
        case True
        then have "inj_on ?g (insert q ?K)"
          using inj by (simp add: insert_absorb)
        from map_of_rekey [OF this] gq nd False show ?thesis
          by (simp add: rel)
      next
        case out: False
        have "q \<notin> ?g ` ?K"
        proof
          assume "q \<in> ?g ` ?K"
          then obtain k where k: "k \<in> ?K" "?g k = q" by blast
          show False
          proof (cases "below src k")
            case True
            with k(2) have "below dst q" by (auto simp: rekey_def)
            with nd show False by simp
          next
            case False
            with k out show False by (simp add: rekey_def)
          qed
        qed
        then have "map_of (map (\<lambda>(q, n). (?g q, n)) t) q = None"
          by (rule map_of_rekey_None)
        moreover from out have "map_of t q = None"
          by (simp add: map_of_eq_None_iff)
        ultimately show ?thesis
          using nd False by (simp add: rel)
      qed
    qed
  qed
qed


lemma map_of_relocate':
  assumes "\<forall>q \<in> fst ` set t. \<not> below dst q"
  shows "map_of (relocate src dst t) q =
           (if below dst q then map_of t (src @ drop (length dst) q)
            else if below src q then None else map_of t q)"
proof -
  have "map_of t k = None" if "k \<notin> fst ` set t" for k
    using that by (simp add: map_of_eq_None_iff)
  then show ?thesis
    by (simp add: map_of_relocate [OF assms])
qed

lemma wf_free_below:
  assumes "wf_fs t" "\<not> path_exists t b"
  shows "\<forall>q \<in> fst ` set t. \<not> below b q"
proof (intro ballI notI)
  fix q assume q: "q \<in> fst ` set t" "below b q"
  from assms(2) have nd: "\<not> is_dir t b"
    by (simp add: is_dir_def path_exists_def)
  from wf_nothing_below [OF assms(1) nd q] q(1) assms(2) show False
    by (simp add: path_exists_iff)
qed

text \<open>A rename to a path that does not exist moves the node and all that lies under it.\<close>

lemma rename_fs_fresh:
  assumes wf: "wf_fs t" and nb: "\<not> path_exists t b" and ok: "rename_fs a b t = Inr t'"
  shows "lookup t' q =
           (if below b q then lookup t (a @ drop (length b) q)
            else if below a q then None else lookup t q)"
proof -
  from nb have b: "b \<noteq> []" "lookup t b = None"
    by (auto simp: path_exists_def lookup_def)
  from ok have a: "a \<noteq> []" "a \<noteq> b" and t': "t' = relocate a b t"
    using nb b by (auto simp: rename_fs_def path_exists_def split: option.splits if_splits)
  have free: "\<forall>q \<in> fst ` set t. \<not> below b q"
    by (rule wf_free_below [OF wf nb])
  show ?thesis
  proof (cases "q = []")
    case True
    with a b show ?thesis by (simp add: lookup_def below_def)
  next
    case False
    with a show ?thesis
      by (simp add: lookup_def t' map_of_relocate' [OF free])
  qed
qed

lemma rename_fs_fresh_target:
  assumes "wf_fs t" "\<not> path_exists t b" "rename_fs a b t = Inr t'"
  shows "lookup t' b = lookup t a" "\<not> path_exists t' a"
proof -
  from assms(3) assms(2) have ne: "a \<noteq> []" "a \<noteq> b" "\<not> below a b"
    by (auto simp: rename_fs_def path_exists_def split: option.splits if_splits)
  show "lookup t' b = lookup t a"
    by (simp add: rename_fs_fresh [OF assms])
  have "\<not> below b a"
  proof
    assume "below b a"
    moreover from assms(3) have "path_exists t a"
      by (auto simp: rename_fs_def path_exists_def split: option.splits)
    ultimately show False
      using wf_free_below [OF assms(1,2)] ne(1) by (auto simp: path_exists_iff)
  qed
  then show "\<not> path_exists t' a"
    by (simp add: path_exists_def rename_fs_fresh [OF assms])
qed

lemma perform_Inr:
  "perform act f w = Inr w' \<longleftrightarrow>
     \<not> faults w act \<and> (\<exists>t. f (fs w) = Inr t \<and> w' = mutate act t w)"
  by (auto simp: perform_def split: sum.splits)

lemma mutate_simps [simp]:
  "fs (mutate act t w) = t" "config (mutate act t w) = config w"
  "operation_log (mutate act t w) = operation_log w" "log (mutate act t w) = log w"
  "history (mutate act t w) = history w @ [Mutated act]" "stdin (mutate act t w) = stdin w"
  "faults (mutate act t w) = faults w" "temp_names (mutate act t w) = temp_names w"
  "config_file (mutate act t w) = config_file w"
  "uuid_source (mutate act t w) = uuid_source w" "uuid_count (mutate act t w) = uuid_count w"
  by (simp_all add: mutate_def)

text \<open>\<open>mkdir\<close> with parents only adds directories at paths that did not exist.\<close>

lemma mkdir_chain_lookup:
  "mkdir_chain ps t = Inr t' \<Longrightarrow> [] \<notin> set ps \<Longrightarrow>
     lookup t' q = (if q \<in> set ps \<and> lookup t q = None then Some Dir else lookup t q)"
proof (induction ps arbitrary: t)
  case Nil
  then show ?case by simp
next
  case (Cons p ps)
  show ?case
  proof (cases "lookup t p")
    case None
    with Cons.prems have "mkdir_chain ps (AList.update p Dir t) = Inr t'" by simp
    from Cons.prems(2) have "[] \<notin> set ps" "p \<noteq> []" by auto
    from Cons.IH [OF \<open>mkdir_chain ps (AList.update p Dir t) = Inr t'\<close> this(1)] None this(2)
    show ?thesis
      by (cases "q = p") (auto simp: lookup_update split: if_splits)
  next
    case (Some n)
    with Cons.prems have n: "n = Dir" and "mkdir_chain ps t = Inr t'"
      by (auto split: node.splits)
    from Cons.IH [OF this(2)] Cons.prems(2) Some n show ?thesis
      by auto
  qed
qed

lemma mkdir_fs_lookup:
  assumes "mkdir_fs p t = Inr t'"
  shows "lookup t' q = (if q \<noteq> [] \<and> below q p \<and> lookup t q = None then Some Dir else lookup t q)"
proof -
  let ?ps = "map (\<lambda>k. take k p) [1..<Suc (length p)]"
  have nil: "[] \<notin> set ?ps" by auto
  have mem: "q \<in> set ?ps \<longleftrightarrow> q \<noteq> [] \<and> below q p"
  proof
    assume "q \<in> set ?ps"
    then obtain k where "1 \<le> k" "k \<le> length p" "q = take k p" by auto
    then show "q \<noteq> [] \<and> below q p"
      by (auto simp: below_def min_def)
  next
    assume q: "q \<noteq> [] \<and> below q p"
    then have "q = take (length q) p" "1 \<le> length q" "length q \<le> length p"
      using below_length [of q p] by (auto simp: below_def intro: Suc_leI)
    then show "q \<in> set ?ps"
      by (metis (no_types, lifting) atLeastLessThan_iff image_eqI less_Suc_eq_le list.set_map set_upt)
  qed
  from mkdir_chain_lookup [OF assms [unfolded mkdir_fs_def] nil] mem show ?thesis
    by simp
qed

lemma copy_fs_lookup:
  assumes "copy_fs a b t = Inr t'" "\<not> is_dir t b"
  shows "lookup t' q = (if q = b then lookup t a else lookup t q)" "is_file t a"
proof -
  from assms obtain c where c: "lookup t a = Some (File c)" and t': "t' = AList.update b (File c) t"
    and b: "b \<noteq> []"
    by (auto simp: copy_fs_def Let_def is_dir_def lookup_def split: option.splits node.splits if_splits)
  show "lookup t' q = (if q = b then lookup t a else lookup t q)"
    by (simp add: t' lookup_update [OF b] c)
  show "is_file t a" by (simp add: is_file_def c)
qed


section \<open>Properties of rollback\<close>

lemma not_below_butlast: "s \<noteq> [] \<Longrightarrow> \<not> below s (butlast s)"
  by (cases s rule: rev_cases) (auto simp: below_def)

lemma rollback_rename_restores:
  assumes "wf_fs (fs w)" "\<not> path_exists (fs w) s" "os_rename tg s w = Inr w1"
  shows "lookup (fs w1) s = lookup (fs w) tg \<and> \<not> path_exists (fs w1) tg"
proof -
  from assms(3) obtain t where t: "rename_fs tg s (fs w) = Inr t" "fs w1 = t"
    by (auto simp: os_rename_def perform_Inr)
  from rename_fs_fresh_target [OF assms(1,2) t(1)] t(2) show ?thesis by simp
qed

lemma rollback_move_copies:
  assumes ex: "path_exists (fs w) tg" and nd: "\<not> is_dir (fs w) s"
    and mk: "mkdir_parents (parent s) w = Inr w1" and cp: "shutil_copy2 tg s w1 = Inr w2"
  shows "lookup (fs w2) s = lookup (fs w) tg \<and> lookup (fs w2) tg = lookup (fs w) tg
         \<and> is_file (fs w) tg"
proof -
  from mk obtain t1 where t1: "mkdir_fs (parent s) (fs w) = Inr t1" "fs w1 = t1"
    by (auto simp: mkdir_parents_def perform_Inr)
  from cp obtain t2 where t2: "copy_fs tg s t1 = Inr t2" "fs w2 = t2"
    by (auto simp: shutil_copy2_def perform_Inr t1(2))
  note L1 = mkdir_fs_lookup [OF t1(1)]
  have tg1: "lookup t1 tg = lookup (fs w) tg"
    using ex by (simp add: L1 path_exists_def)
  have "\<not> below s (parent s)" if "s \<noteq> []"
    using that by (simp add: parent_def not_below_butlast)
  then have nd1: "\<not> is_dir t1 s"
    using nd by (auto simp: is_dir_def L1)
  note L2 = copy_fs_lookup [OF t2(1) nd1]
  from t2(1) nd1 have ne: "tg \<noteq> s"
    by (auto simp: copy_fs_def Let_def split: option.splits node.splits if_splits)
  from L2(2) tg1 have "is_file (fs w) tg" by (simp add: is_file_def)
  with L2(1) [of s] L2(1) [of tg] tg1 ne t2(2) show ?thesis by simp
qed

text \<open>
  Claim C5. \<open>rollback\<close> goes through the journal from its last record to its first. A rename
  record is undone by renaming the target back to the source, only if the target exists and the
  source does not (the source then holds what the target held, and the target is gone). A move
  record is undone by copying the target back to the source, the target staying in place. A delete
  record changes nothing in the tree and logs a warning that it cannot be rolled back. A failure on
  one record is logged as an error and the loop goes on with the next record.
\<close>

theorem rollback_best_effort:
  "(operation_log w = rs @ [r0] \<longrightarrow>
      rollback w = logger INFO ''rollback finished'' []
        (rollback_loop (rev rs) (rollback_op r0 (logger INFO ''rollback started'' [] w))))
   \<and> rollback_loop (r # rest) w = rollback_loop rest (rollback_op r w)
   \<and> (operation r = OpRename \<and> target r = Some tg \<longrightarrow>
        (path_exists (fs w) tg \<and> \<not> path_exists (fs w) (source r) \<longrightarrow>
           (os_rename tg (source r) w = Inr w1 \<longrightarrow>
              rollback_op r w = logger INFO ''rolled back rename'' [tg, source r] w1
              \<and> (wf_fs (fs w) \<longrightarrow> lookup (fs w1) (source r) = lookup (fs w) tg
                    \<and> \<not> path_exists (fs w1) tg))
         \<and> (os_rename tg (source r) w = Inl e \<longrightarrow>
              rollback_op r w = logger ERROR ''rollback of an operation failed'' [] w))
      \<and> (\<not> (path_exists (fs w) tg \<and> \<not> path_exists (fs w) (source r)) \<longrightarrow> rollback_op r w = w))
   \<and> (operation r = OpMove \<and> target r = Some tg \<longrightarrow>
        (path_exists (fs w) tg \<longrightarrow>
           (mkdir_parents (parent (source r)) w = Inl e \<longrightarrow>
              rollback_op r w = logger ERROR ''rollback of an operation failed'' [] w)
         \<and> (mkdir_parents (parent (source r)) w = Inr w1 \<longrightarrow>
              (shutil_copy2 tg (source r) w1 = Inl e \<longrightarrow>
                 rollback_op r w = logger ERROR ''rollback of an operation failed'' [] w1)
            \<and> (shutil_copy2 tg (source r) w1 = Inr w2 \<longrightarrow>
                 rollback_op r w = logger INFO ''rolled back move'' [tg, source r] w2
                 \<and> (\<not> is_dir (fs w) (source r) \<longrightarrow>
                       lookup (fs w2) (source r) = lookup (fs w) tg
                       \<and> lookup (fs w2) tg = lookup (fs w) tg \<and> is_file (fs w) tg))))
      \<and> (\<not> path_exists (fs w) tg \<longrightarrow> rollback_op r w = w))
   \<and> (operation r = OpDelete \<longrightarrow>
        rollback_op r w = logger WARNING ''cannot roll back deletion'' [source r] w
        \<and> fs (rollback_op r w) = fs w)"
proof -
  have order: "operation_log w = rs @ [r0] \<longrightarrow>
      rollback w = logger INFO ''rollback finished'' []
        (rollback_loop (rev rs) (rollback_op r0 (logger INFO ''rollback started'' [] w)))"
    by (simp add: rollback_def)
  have step: "rollback_loop (r # rest) w = rollback_loop rest (rollback_op r w)"
    by simp
  have ren: "operation r = OpRename \<and> target r = Some tg \<longrightarrow>
        (path_exists (fs w) tg \<and> \<not> path_exists (fs w) (source r) \<longrightarrow>
           (os_rename tg (source r) w = Inr w1 \<longrightarrow>
              rollback_op r w = logger INFO ''rolled back rename'' [tg, source r] w1
              \<and> (wf_fs (fs w) \<longrightarrow> lookup (fs w1) (source r) = lookup (fs w) tg
                    \<and> \<not> path_exists (fs w1) tg))
         \<and> (os_rename tg (source r) w = Inl e \<longrightarrow>
              rollback_op r w = logger ERROR ''rollback of an operation failed'' [] w))
      \<and> (\<not> (path_exists (fs w) tg \<and> \<not> path_exists (fs w) (source r)) \<longrightarrow> rollback_op r w = w)"
    using rollback_rename_restores [of w "source r" tg w1]
    by (auto simp: rollback_op_def)
  have mov: "operation r = OpMove \<and> target r = Some tg \<longrightarrow>
        (path_exists (fs w) tg \<longrightarrow>
           (mkdir_parents (parent (source r)) w = Inl e \<longrightarrow>
              rollback_op r w = logger ERROR ''rollback of an operation failed'' [] w)
         \<and> (mkdir_parents (parent (source r)) w = Inr w1 \<longrightarrow>
              (shutil_copy2 tg (source r) w1 = Inl e \<longrightarrow>
                 rollback_op r w = logger ERROR ''rollback of an operation failed'' [] w1)
            \<and> (shutil_copy2 tg (source r) w1 = Inr w2 \<longrightarrow>
                 rollback_op r w = logger INFO ''rolled back move'' [tg, source r] w2
                 \<and> (\<not> is_dir (fs w) (source r) \<longrightarrow>
                       lookup (fs w2) (source r) = lookup (fs w) tg
                       \<and> lookup (fs w2) tg = lookup (fs w) tg \<and> is_file (fs w) tg))))
      \<and> (\<not> path_exists (fs w) tg \<longrightarrow> rollback_op r w = w)"
    using rollback_move_copies [of w tg "source r" w1 w2]
    by (auto simp: rollback_op_def)
  have del: "operation r = OpDelete \<longrightarrow>
        rollback_op r w = logger WARNING ''cannot roll back deletion'' [source r] w
        \<and> fs (rollback_op r w) = fs w"
    by (simp add: rollback_op_def)
  from order step ren mov del show ?thesis by blast
qed

lemma sum_cases_Inr: "(case x of Inl e \<Rightarrow> False | Inr y \<Rightarrow> True) \<Longrightarrow> \<exists>y. x = Inr y"
  by (cases x) auto

theorem rollback_best_effort_witness:
  "rollback ((example_world example_tree [])\<lparr>operation_log := [example_rename, example_delete]\<rparr>)
     = logger INFO ''rollback finished'' []
         (rollback_loop [example_rename]
            (rollback_op example_delete
               (logger INFO ''rollback started'' []
                  ((example_world example_tree [])\<lparr>operation_log := [example_rename, example_delete]\<rparr>))))
   \<and> lookup (fs (rollback_op example_rename (example_world example_tree []))) [''A'', ''a.jpg'']
       = Some (File (Data ''page one''))
   \<and> \<not> path_exists (fs (rollback_op example_rename (example_world example_tree []))) [''A'', ''0001.jpg'']
   \<and> rollback_op example_rename
        ((example_world example_tree [])\<lparr>faults := (\<lambda>x. x = FsRename [''A'', ''0001.jpg''] [''A'', ''a.jpg''])\<rparr>)
       = logger ERROR ''rollback of an operation failed'' []
          ((example_world example_tree [])\<lparr>faults := (\<lambda>x. x = FsRename [''A'', ''0001.jpg''] [''A'', ''a.jpg''])\<rparr>)
   \<and> lookup (fs (rollback_op example_move (example_world example_tree []))) [''B'', ''sub'', ''p.jpg'']
       = Some (File (Data ''page two''))
   \<and> lookup (fs (rollback_op example_move (example_world example_tree []))) [''B'', ''p.jpg'']
       = Some (File (Data ''page two''))
   \<and> rollback_op example_delete (example_world example_tree [])
       = logger WARNING ''cannot roll back deletion'' [[''B'', ''sub'']] (example_world example_tree [])"
proof -
  let ?w = "example_world example_tree []"
  let ?wj = "?w\<lparr>operation_log := [example_rename, example_delete]\<rparr>"
  let ?wf = "?w\<lparr>faults := (\<lambda>x. x = FsRename [''A'', ''0001.jpg''] [''A'', ''a.jpg''])\<rparr>"
  let ?tg = "[''A'', ''0001.jpg'']" and ?s = "[''A'', ''a.jpg'']"
  let ?mt = "[''B'', ''p.jpg'']" and ?ms = "[''B'', ''sub'', ''p.jpg'']"
  have j: "operation_log ?wj = [example_rename] @ [example_delete]"
    by simp
  have r: "operation example_rename = OpRename" "target example_rename = Some ?tg"
          "source example_rename = ?s"
    by (simp_all add: example_rename_def)
  have m: "operation example_move = OpMove" "target example_move = Some ?mt"
          "source example_move = ?ms"
    by (simp_all add: example_move_def)
  have d: "operation example_delete = OpDelete" "source example_delete = [''B'', ''sub'']"
    by (simp_all add: example_delete_def)
  have wf: "wf_fs (fs ?w)" by code_simp
  have ex: "path_exists (fs ?w) ?tg" "\<not> path_exists (fs ?w) ?s" "path_exists (fs ?w) ?mt"
           "\<not> is_dir (fs ?w) ?ms" "path_exists (fs ?wf) ?tg" "\<not> path_exists (fs ?wf) ?s"
    by code_simp+
  have tgv: "lookup (fs ?w) ?tg = Some (File (Data ''page one''))"
            "lookup (fs ?w) ?mt = Some (File (Data ''page two''))"
    by code_simp+
  have "case os_rename ?tg ?s ?w of Inl e \<Rightarrow> False | Inr y \<Rightarrow> True" by code_simp
  then obtain w1 where w1: "os_rename ?tg ?s ?w = Inr w1"
    by (auto dest: sum_cases_Inr)
  have f: "os_rename ?tg ?s ?wf = Inl OSError"
    by (simp add: os_rename_def perform_def)
  have "case mkdir_parents (parent ?ms) ?w of Inl e \<Rightarrow> False | Inr y \<Rightarrow> True" by code_simp
  then obtain m1 where m1: "mkdir_parents (parent ?ms) ?w = Inr m1"
    by (auto dest: sum_cases_Inr)
  have "case (case mkdir_parents (parent ?ms) ?w of Inl e \<Rightarrow> Inl e | Inr y \<Rightarrow> shutil_copy2 ?mt ?ms y)
        of Inl e \<Rightarrow> False | Inr y \<Rightarrow> True" by code_simp
  then obtain m2 where m2: "shutil_copy2 ?mt ?ms m1 = Inr m2"
    using m1 by (auto dest: sum_cases_Inr)
  note t1 = rollback_best_effort [of ?wj "[example_rename]" example_delete]
  note t2 = rollback_best_effort [of ?w _ _ example_rename _ ?tg w1]
  note t3 = rollback_best_effort [of ?wf _ _ example_rename _ ?tg _ OSError]
  note t4 = rollback_best_effort [of ?w _ _ example_move _ ?mt m1 _ m2]
  note t5 = rollback_best_effort [of ?w _ _ example_delete]
  have 1: "rollback ?wj = logger INFO ''rollback finished'' []
         (rollback_loop [example_rename]
            (rollback_op example_delete (logger INFO ''rollback started'' [] ?wj)))"
    using t1 j by simp
  have 2: "lookup (fs (rollback_op example_rename ?w)) ?s = Some (File (Data ''page one''))
           \<and> \<not> path_exists (fs (rollback_op example_rename ?w)) ?tg"
    using t2 r ex(1,2) w1 wf tgv(1) by simp
  have 3: "rollback_op example_rename ?wf = logger ERROR ''rollback of an operation failed'' [] ?wf"
    using t3 r ex(5,6) f by simp
  have 4: "lookup (fs (rollback_op example_move ?w)) ?ms = Some (File (Data ''page two''))
           \<and> lookup (fs (rollback_op example_move ?w)) ?mt = Some (File (Data ''page two''))"
    using t4 m ex(3,4) m1 m2 tgv(2) by simp
  have 5: "rollback_op example_delete ?w
       = logger WARNING ''cannot roll back deletion'' [[''B'', ''sub'']] ?w"
    using t5 d by simp
  from 1 2 3 4 5 show ?thesis by blast
qed

end
